theory Spec2Isabelle
  imports Complex_Main "HOL-Library.Numeral_Type"
begin

section \<open>Data model\<close>

text \<open>
  The script \<^verbatim>\<open>tutorial_quanvolution.py\<close> works on NumPy arrays. A 3-dimensional
  array (height, width, channels) is a list of rows, a row a list of pixels, a pixel
  a list of channel values. The scalars are only moved around by \<^verbatim>\<open>quanv\<close>, so
  their type is left open; the circuit fixes it to the reals.

  Arrays are objects: \<^verbatim>\<open>quanv\<close> allocates \<^verbatim>\<open>out\<close> and writes into it by
  index, and it reads the caller's \<^verbatim>\<open>image\<close>. The store is a list of arrays, a
  reference is a position in it, and allocation appends.
\<close>

type_synonym 'a ndarray = "'a list list list"

type_synonym ref = nat

type_synonym 'a heap = "'a ndarray list"

datatype error = IndexError | FileNotFoundError string string

text \<open>\<^verbatim>\<open>a.shape == (H, W, C)\<close>: NumPy arrays are rectangular.\<close>

definition has_shape :: "'a ndarray \<Rightarrow> nat \<Rightarrow> nat \<Rightarrow> nat \<Rightarrow> bool" where
  "has_shape a H W C \<longleftrightarrow>
     length a = H \<and> (\<forall>row \<in> set a. length row = W \<and> (\<forall>px \<in> set row. length px = C))"

text \<open>\<^verbatim>\<open>np.zeros((H, W, C))\<close>.\<close>

definition np_zeros :: "nat \<Rightarrow> nat \<Rightarrow> nat \<Rightarrow> 'a::zero ndarray" where
  "np_zeros H W C = replicate H (replicate W (replicate C 0))"

text \<open>
  \<^verbatim>\<open>a[i, j, c]\<close> with non-negative indices: NumPy raises IndexError when an index
  is out of bounds for its axis.
\<close>

definition getitem :: "'a ndarray \<Rightarrow> nat \<Rightarrow> nat \<Rightarrow> nat \<Rightarrow> error + 'a" where
  "getitem a i j c =
     (if i < length a then
        if j < length (a ! i) then
          if c < length (a ! i ! j) then Inr (a ! i ! j ! c) else Inl IndexError
        else Inl IndexError
      else Inl IndexError)"

text \<open>\<^verbatim>\<open>a[i, j, c] = v\<close>, with the same bounds check.\<close>

definition setitem :: "'a ndarray \<Rightarrow> nat \<Rightarrow> nat \<Rightarrow> nat \<Rightarrow> 'a \<Rightarrow> error + 'a ndarray" where
  "setitem a i j c v =
     (if i < length a then
        if j < length (a ! i) then
          if c < length (a ! i ! j) then Inr (a[i := (a ! i)[j := (a ! i ! j)[c := v]]])
          else Inl IndexError
        else Inl IndexError
      else Inl IndexError)"

text \<open>\<^verbatim>\<open>q_results[c]\<close> on the sequence a QNode returns.\<close>

definition seq_getitem :: "'a list \<Rightarrow> nat \<Rightarrow> error + 'a" where
  "seq_getitem q c = (if c < length q then Inr (q ! c) else Inl IndexError)"

text \<open>\<^verbatim>\<open>range(start, stop, step)\<close> for a positive step.\<close>

definition py_range :: "nat \<Rightarrow> nat \<Rightarrow> nat \<Rightarrow> nat list" where
  "py_range start stop step =
     map (\<lambda>i. start + i * step) [0 ..< (stop - start + step - 1) div step]"

section \<open>The convolution \<^verbatim>\<open>quanv\<close>\<close>

text \<open>
  The argument list of the call \<^verbatim>\<open>circuit([image[j, k, 0], image[j, k + 1, 0],
  image[j + 1, k, 0], image[j + 1, k + 1, 0]])\<close>, its elements evaluated left to right.
\<close>

definition patch :: "'a ndarray \<Rightarrow> nat \<Rightarrow> nat \<Rightarrow> error + 'a list" where
  "patch img j k =
     (case getitem img j k 0 of Inl e \<Rightarrow> Inl e | Inr p0 \<Rightarrow>
     (case getitem img j (k + 1) 0 of Inl e \<Rightarrow> Inl e | Inr p1 \<Rightarrow>
     (case getitem img (j + 1) k 0 of Inl e \<Rightarrow> Inl e | Inr p2 \<Rightarrow>
     (case getitem img (j + 1) (k + 1) 0 of Inl e \<Rightarrow> Inl e | Inr p3 \<Rightarrow>
        Inr [p0, p1, p2, p3]))))"

text \<open>
  The loops thread the store; the first component of a result is the exception that
  ended the loop, if any. \<^verbatim>\<open>for c in range(4): out[j // 2, k // 2, c] = q_results[c]\<close>:
\<close>

fun assign_channels ::
  "ref \<Rightarrow> nat \<Rightarrow> nat \<Rightarrow> 'a list \<Rightarrow> nat list \<Rightarrow> 'a heap \<Rightarrow> error option \<times> 'a heap" where
  "assign_channels out j k q_results [] h = (None, h)"
| "assign_channels out j k q_results (c # cs) h =
     (case seq_getitem q_results c of
        Inl e \<Rightarrow> (Some e, h)
      | Inr v \<Rightarrow>
          (case setitem (h ! out) (j div 2) (k div 2) c v of
             Inl e \<Rightarrow> (Some e, h)
           | Inr a \<Rightarrow> assign_channels out j k q_results cs (h[out := a])))"

text \<open>
  \<^verbatim>\<open>for k in range(0, 28, 2)\<close>, for one \<^verbatim>\<open>j\<close>. The QNode is the parameter
  \<open>circuit\<close>: it takes the list of pixel values and returns the sequence of
  expectation values, or raises.
\<close>

type_synonym 'a qnode = "'a list \<Rightarrow> error + 'a list"

fun loop_k ::
  "'a qnode \<Rightarrow> ref \<Rightarrow> ref \<Rightarrow> nat \<Rightarrow> nat list \<Rightarrow> 'a heap \<Rightarrow> error option \<times> 'a heap" where
  "loop_k circuit img out j [] h = (None, h)"
| "loop_k circuit img out j (k # ks) h =
     (case patch (h ! img) j k of
        Inl e \<Rightarrow> (Some e, h)
      | Inr phi \<Rightarrow>
          (case circuit phi of
             Inl e \<Rightarrow> (Some e, h)
           | Inr q_results \<Rightarrow>
               (case assign_channels out j k q_results (py_range 0 4 1) h of
                  (Some e, h') \<Rightarrow> (Some e, h')
                | (None, h') \<Rightarrow> loop_k circuit img out j ks h')))"

text \<open>\<^verbatim>\<open>for j in range(0, 28, 2)\<close>.\<close>

fun loop_j ::
  "'a qnode \<Rightarrow> ref \<Rightarrow> ref \<Rightarrow> nat list \<Rightarrow> 'a heap \<Rightarrow> error option \<times> 'a heap" where
  "loop_j circuit img out [] h = (None, h)"
| "loop_j circuit img out (j # js) h =
     (case loop_k circuit img out j (py_range 0 28 2) h of
        (Some e, h') \<Rightarrow> (Some e, h')
      | (None, h') \<Rightarrow> loop_j circuit img out js h')"

text \<open>
  \<^verbatim>\<open>def quanv(image)\<close>: \<^verbatim>\<open>out = np.zeros((14, 14, 4))\<close> is a new array, the
  loops fill it, and the reference to it is returned. An exception leaves the
  function with the store as it is at that moment.
\<close>

definition quanv ::
  "'a::zero qnode \<Rightarrow> ref \<Rightarrow> 'a heap \<Rightarrow> (error + ref) \<times> 'a heap" where
  "quanv circuit img h =
     (let out = length h;
          h0 = h @ [np_zeros 14 14 4]
      in case loop_j circuit img out (py_range 0 28 2) h0 of
           (Some e, h') \<Rightarrow> (Inl e, h')
         | (None, h') \<Rightarrow> (Inr out, h'))"

text \<open>
  What the caller of \<^verbatim>\<open>quanv(image)\<close> sees: the exception, or the contents of the
  returned array.
\<close>

definition outcome :: "'a::zero qnode \<Rightarrow> ref \<Rightarrow> 'a heap \<Rightarrow> error + 'a ndarray" where
  "outcome circuit img h =
     (case quanv circuit img h of (Inl e, h') \<Rightarrow> Inl e | (Inr out, h') \<Rightarrow> Inr (h' ! out))"

text \<open>
  The QNode of the script is called with four values and returns four
  (\<^verbatim>\<open>[qml.expval(qml.PauliZ(j)) for j in range(4)]\<close>).
\<close>

definition four_in_four_out :: "'a qnode \<Rightarrow> bool" where
  "four_in_four_out circuit \<longleftrightarrow>
     (\<forall>phi. length phi = 4 \<longrightarrow> (\<exists>q. circuit phi = Inr q \<and> length q = 4))"

text \<open>
  The tensor the specification describes: cell \<open>(r, s)\<close> holds the circuit's output
  for the 2x2 patch whose top-left pixel is \<open>(2r, 2s)\<close>, the pixels in the order
  (0,0), (0,1), (1,0), (1,1).
\<close>

definition patch_vals :: "'a ndarray \<Rightarrow> nat \<Rightarrow> nat \<Rightarrow> 'a list" where
  "patch_vals a j k =
     [a ! j ! k ! 0, a ! j ! (k + 1) ! 0, a ! (j + 1) ! k ! 0, a ! (j + 1) ! (k + 1) ! 0]"

definition feature_tensor :: "'a qnode \<Rightarrow> 'a ndarray \<Rightarrow> 'a ndarray" where
  "feature_tensor circuit a =
     map (\<lambda>r. map (\<lambda>s. projr (circuit (patch_vals a (2 * r) (2 * s)))) [0 ..< 14]) [0 ..< 14]"

text \<open>The top-left 28x28 region of an image, first channel only.\<close>

definition top_left_28 :: "'a ndarray \<Rightarrow> 'a ndarray" where
  "top_left_28 a = map (\<lambda>row. map (take 1) (take 28 row)) (take 28 a)"

section \<open>Pre-processing and the cache files\<close>

text \<open>
  \<^verbatim>\<open>for idx, img in enumerate(train_images): q_train_images.append(quanv(img))\<close>
  (the progress output is not modelled).
\<close>

fun quanv_all :: "'a::zero qnode \<Rightarrow> ref list \<Rightarrow> 'a heap \<Rightarrow> (error + ref list) \<times> 'a heap" where
  "quanv_all circuit [] h = (Inr [], h)"
| "quanv_all circuit (img # imgs) h =
     (case quanv circuit img h of
        (Inl e, h') \<Rightarrow> (Inl e, h')
      | (Inr r, h') \<Rightarrow>
          (case quanv_all circuit imgs h' of
             (Inl e, h'') \<Rightarrow> (Inl e, h'')
           | (Inr rs, h'') \<Rightarrow> (Inr (r # rs), h'')))"

text \<open>
  The files under \<^verbatim>\<open>SAVE_PATH\<close>: a file holds a batch of tensors.
  \<^verbatim>\<open>np.load\<close> opens the file, and a missing file raises the operating system's
  FileNotFoundError, which carries the error text and the file name.
\<close>

type_synonym 'a files = "string \<rightharpoonup> 'a ndarray list"

definition SAVE_PATH :: string where
  "SAVE_PATH = ''my_path/''"

definition np_save :: "'a files \<Rightarrow> string \<Rightarrow> 'a ndarray list \<Rightarrow> 'a files" where
  "np_save fs file arr = fs(file \<mapsto> arr)"

definition np_load :: "'a files \<Rightarrow> string \<Rightarrow> error + 'a ndarray list" where
  "np_load fs file =
     (case fs file of
        None \<Rightarrow> Inl (FileNotFoundError ''No such file or directory'' file)
      | Some arr \<Rightarrow> Inr arr)"

text \<open>
  Lines 218 to 240 of the script: \<^verbatim>\<open>if PREPROCESS == True:\<close> both batches are
  convolved and saved; then, in either case, both files are loaded. The result is the
  pair \<^verbatim>\<open>(q_train_images, q_test_images)\<close> and the files.
\<close>

definition preprocessing ::
  "bool \<Rightarrow> 'a::zero qnode \<Rightarrow> ref list \<Rightarrow> ref list \<Rightarrow> 'a heap \<Rightarrow> 'a files \<Rightarrow>
     (error + 'a ndarray list \<times> 'a ndarray list) \<times> 'a files" where
  "preprocessing PREPROCESS circuit train_images test_images h fs =
     (case
        (if PREPROCESS then
           (case quanv_all circuit train_images h of
              (Inl e, h1) \<Rightarrow> Inl e
            | (Inr rs, h1) \<Rightarrow>
                (let q_train_images = map (\<lambda>r. h1 ! r) rs
                 in case quanv_all circuit test_images h1 of
                      (Inl e, h2) \<Rightarrow> Inl e
                    | (Inr ts, h2) \<Rightarrow>
                        (let q_test_images = map (\<lambda>r. h2 ! r) ts;
                             fs1 = np_save fs (SAVE_PATH @ ''q_train_images.npy'') q_train_images
                         in Inr (np_save fs1 (SAVE_PATH @ ''q_test_images.npy'') q_test_images))))
         else Inr fs)
      of
        Inl e \<Rightarrow> (Inl e, fs)
      | Inr fs' \<Rightarrow>
          (case np_load fs' (SAVE_PATH @ ''q_train_images.npy'') of
             Inl e \<Rightarrow> (Inl e, fs')
           | Inr q_train_images \<Rightarrow>
               (case np_load fs' (SAVE_PATH @ ''q_test_images.npy'') of
                  Inl e \<Rightarrow> (Inl e, fs')
                | Inr q_test_images \<Rightarrow> (Inr (q_train_images, q_test_images), fs'))))"

text \<open>Whether a text contains a word, for what a diagnostic says.\<close>

fun mentions :: "string \<Rightarrow> string \<Rightarrow> bool" where
  "mentions word [] = (word = [])"
| "mentions word (c # cs) = (take (length word) (c # cs) = word \<or> mentions word cs)"

section \<open>The quantum circuit\<close>

text \<open>
  The script's \<^verbatim>\<open>circuit\<close> is three calls into PennyLane: \<^verbatim>\<open>qml.RY\<close> on each
  wire, \<^verbatim>\<open>RandomLayers\<close>, and \<^verbatim>\<open>qml.expval(qml.PauliZ(j))\<close> on each wire, run on
  \<^verbatim>\<open>qml.device("default.qubit", wires=4)\<close>. The device simulates four qubits
  exactly (no shots): the state is a vector of 16 complex amplitudes, one for each
  assignment of a bit to each wire. The numbers are exact reals and complex numbers
  here; the rounding of the simulator's floating-point arithmetic is not modelled.
\<close>

type_synonym wire = "4"

type_synonym basis = "wire \<Rightarrow> bool"

type_synonym statevector = "basis \<Rightarrow> complex"

datatype rotation = RX | RY | RZ

datatype operation = Rot rotation real wire | CNOT wire wire

text \<open>
  Modelled from the spec: the device is PennyLane's. Each qubit is "an independent
  2-level quantum state register initialized to its ground state": every execution
  starts from the state \<open>|0000\<rangle>\<close>.
\<close>

definition ground :: statevector where
  "ground b = (if b = (\<lambda>w. False) then 1 else 0)"

text \<open>
  Modelled from the spec: the rotation gates are PennyLane's ("a rotation of angle
  pi * phi[j] applied to [...] qubit j"). Their 2x2 matrices, entry (row, column), a
  bit standing for the basis state of one qubit:
  \<open>RX(\<theta>) = [[cos(\<theta>/2), -i sin(\<theta>/2)], [-i sin(\<theta>/2), cos(\<theta>/2)]]\<close>,
  \<open>RY(\<theta>) = [[cos(\<theta>/2), -sin(\<theta>/2)], [sin(\<theta>/2), cos(\<theta>/2)]]\<close>,
  \<open>RZ(\<theta>) = diag(exp(-i\<theta>/2), exp(i\<theta>/2))\<close>.
\<close>

fun matrix :: "rotation \<Rightarrow> real \<Rightarrow> bool \<Rightarrow> bool \<Rightarrow> complex" where
  "matrix RX \<theta> r c = (if r = c then complex_of_real (cos (\<theta> / 2)) else - \<i> * complex_of_real (sin (\<theta> / 2)))"
| "matrix RY \<theta> r c =
     (if r = c then complex_of_real (cos (\<theta> / 2))
      else if r then complex_of_real (sin (\<theta> / 2)) else - complex_of_real (sin (\<theta> / 2)))"
| "matrix RZ \<theta> r c = (if r = c then (if r then cis (\<theta> / 2) else cis (- \<theta> / 2)) else 0)"

text \<open>
  Modelled from the spec: how the simulator applies a gate ("unitary matrix
  multiplication" on the "state vector of dimension 2^4 = 16"). A one-qubit gate acts
  on the amplitudes pairwise; \<^verbatim>\<open>CNOT\<close> flips the target bit of the basis states whose
  control bit is set. The gates of a circuit are applied in the order they are queued.
\<close>

fun apply_operation :: "operation \<Rightarrow> statevector \<Rightarrow> statevector" where
  "apply_operation (Rot g \<theta> w) \<psi> =
     (\<lambda>b. matrix g \<theta> (b w) False * \<psi> (b(w := False)) + matrix g \<theta> (b w) True * \<psi> (b(w := True)))"
| "apply_operation (CNOT c t) \<psi> = (\<lambda>b. \<psi> (if b c then b(t := \<not> b t) else b))"

definition execute :: "operation list \<Rightarrow> statevector" where
  "execute ops = foldl (\<lambda>\<psi> op. apply_operation op \<psi>) ground ops"

text \<open>
  Modelled from the spec: \<^verbatim>\<open>qml.expval(qml.PauliZ(j))\<close> is PennyLane's ("one real
  expectation value per register", by "exact expectation-value computation"). The
  eigenvalue of Pauli-Z is +1 where the bit of wire j is 0 and -1 where it is 1.
\<close>

definition expval_PauliZ :: "wire \<Rightarrow> statevector \<Rightarrow> real" where
  "expval_PauliZ w \<psi> = (\<Sum>b \<in> UNIV. (if b w then - 1 else 1) * (cmod (\<psi> b))\<^sup>2)"

text \<open>\<^verbatim>\<open>for j in range(4): qml.RY(np.pi * phi[j], wires=j)\<close>; \<^verbatim>\<open>phi[j]\<close> raises on a short list.\<close>

fun encoding :: "real list \<Rightarrow> nat list \<Rightarrow> error + operation list" where
  "encoding phi [] = Inr []"
| "encoding phi (j # js) =
     (case seq_getitem phi j of
        Inl e \<Rightarrow> Inl e
      | Inr x \<Rightarrow>
          (case encoding phi js of
             Inl e \<Rightarrow> Inl e
           | Inr ops \<Rightarrow> Inr (Rot RY (pi * x) (of_nat j) # ops)))"

text \<open>
  Modelled from the spec: \<^verbatim>\<open>RandomLayers(rand_params, wires=list(range(4)))\<close> is
  PennyLane's template ("\<^verbatim>\<open>n_layers\<close> layers of randomized 2-level-register
  interaction gates using CircuitParameters"). For each layer (a row of the weights)
  the template draws, from a generator with a fixed seed, either a rotation
  gate (one of RX, RY, RZ) on one wire, which takes the next weight of the row as its
  angle, or a \<^verbatim>\<open>CNOT\<close> on two wires, until every weight of the row is used. What the
  generator draws is the parameter \<open>draws\<close>, in order; a layer ends early if the
  draws run out.
\<close>

datatype draw = Rotation rotation wire | Imprimitive wire wire

fun random_layer :: "draw list \<Rightarrow> real list \<Rightarrow> operation list \<times> draw list" where
  "random_layer ds [] = ([], ds)"
| "random_layer [] (x # xs) = ([], [])"
| "random_layer (Rotation g w # ds) (x # xs) =
     (case random_layer ds xs of (ops, ds') \<Rightarrow> (Rot g x w # ops, ds'))"
| "random_layer (Imprimitive c t # ds) (x # xs) =
     (case random_layer ds (x # xs) of (ops, ds') \<Rightarrow> (CNOT c t # ops, ds'))"

fun RandomLayers :: "draw list \<Rightarrow> real list list \<Rightarrow> operation list" where
  "RandomLayers ds [] = []"
| "RandomLayers ds (weights # rest) =
     (case random_layer ds weights of (ops, ds') \<Rightarrow> ops @ RandomLayers ds' rest)"

text \<open>\<^verbatim>\<open>CNOT\<close> takes two different wires (the template draws them without replacement).\<close>

fun valid_draw :: "draw \<Rightarrow> bool" where
  "valid_draw (Rotation g w) = True"
| "valid_draw (Imprimitive c t) = (c \<noteq> t)"

text \<open>
  \<^verbatim>\<open>def circuit(phi)\<close> under \<^verbatim>\<open>@qml.qnode(dev)\<close>, with the global
  \<^verbatim>\<open>rand_params\<close> and the template's draws as explicit arguments.
\<close>

definition circuit :: "draw list \<Rightarrow> real list list \<Rightarrow> real qnode" where
  "circuit draws rand_params phi =
     (case encoding phi (py_range 0 4 1) of
        Inl e \<Rightarrow> Inl e
      | Inr enc \<Rightarrow>
          (let \<psi> = execute (enc @ RandomLayers draws rand_params)
           in Inr (map (\<lambda>j. expval_PauliZ (of_nat j) \<psi>) (py_range 0 4 1))))"

text \<open>
  For the proofs: the gates that are well-formed, and the gates that rotate by the
  angle 0.
\<close>

fun valid_operation :: "operation \<Rightarrow> bool" where
  "valid_operation (Rot g \<theta> w) = True"
| "valid_operation (CNOT c t) = (c \<noteq> t)"

fun zero_angle :: "operation \<Rightarrow> bool" where
  "zero_angle (Rot g \<theta> w) = (\<theta> = 0)"
| "zero_angle (CNOT c t) = True"

text \<open>
  A sample of draws, for running the circuit on concrete inputs: four rotations, as
  \<^verbatim>\<open>rand_params\<close> has four weights in its one layer, and one \<^verbatim>\<open>CNOT\<close>.
\<close>

definition sample_draws :: "draw list" where
  "sample_draws = [Rotation RY 2, Imprimitive 1 0, Rotation RX 0, Rotation RZ 3, Rotation RY 1]"

section \<open>Arrays and ranges\<close>

lemma py_range_4: "py_range 0 4 1 = [0, 1, 2, 3]"
  by (simp add: py_range_def upt_rec)
lemma py_range_28: "py_range 0 28 2 = map (\<lambda>i. 2 * i) [0 ..< 14]"
  by (simp add: py_range_def mult.commute)
lemma set_py_range_28: "set (py_range 0 28 2) = {j. j < 28 \<and> even j}"
  unfolding py_range_28 by (auto elim!: evenE)
lemma has_shape_nth:
  "has_shape a H W C \<longleftrightarrow>
     length a = H \<and> (\<forall>i<H. length (a ! i) = W \<and> (\<forall>j<W. length (a ! i ! j) = C))"
  by (auto simp: has_shape_def all_set_conv_all_nth)
lemma has_shape_np_zeros: "has_shape (np_zeros H W C) H W C"
  by (simp add: has_shape_def np_zeros_def)
lemma has_shape_row_update:
  "has_shape a H W C \<Longrightarrow> length row = W \<Longrightarrow> \<forall>px \<in> set row. length px = C \<Longrightarrow>
   has_shape (a[i := row]) H W C"
  by (auto simp: has_shape_def dest!: set_update_subset_insert [THEN subsetD])
lemma getitem_shape:
  "has_shape a H W C \<Longrightarrow>
   getitem a i j c = (if i < H \<and> j < W \<and> c < C then Inr (a ! i ! j ! c) else Inl IndexError)"
  by (auto simp: has_shape_nth getitem_def)
lemma getitem_np_zeros:
  "getitem (np_zeros H W C) i j c = (if i < H \<and> j < W \<and> c < C then Inr 0 else Inl IndexError)"
  by (auto simp: getitem_def np_zeros_def)
lemma getitem_error: "getitem a i j c = Inl e \<Longrightarrow> e = IndexError"
  by (auto simp: getitem_def split: if_splits)
lemma setitem_error: "setitem a i j c v = Inl e \<Longrightarrow> e = IndexError"
  by (auto simp: setitem_def split: if_splits)
lemma seq_getitem_error: "seq_getitem q c = Inl e \<Longrightarrow> e = IndexError"
  by (auto simp: seq_getitem_def split: if_splits)
text \<open>
  A write inside the bounds succeeds, keeps the shape, and changes the one cell: arrays
  are compared through \<open>getitem\<close> from here on.
\<close>

lemma setitem_shape:
  assumes "has_shape a H W C" "i < H" "j < W" "c < C"
  shows "\<exists>a'. setitem a i j c v = Inr a' \<and> has_shape a' H W C \<and>
           (\<forall>i' j' c'. getitem a' i' j' c' =
              (if i' = i \<and> j' = j \<and> c' = c then Inr v else getitem a i' j' c'))"
  using assms
  by (auto simp: has_shape_nth setitem_def getitem_def nth_list_update)
lemma ndarray_ext:
  assumes "has_shape a H W C" "has_shape b H W C"
    and "\<And>i j c. i < H \<Longrightarrow> j < W \<Longrightarrow> c < C \<Longrightarrow> getitem a i j c = getitem b i j c"
  shows "a = b"
proof (rule nth_equalityI)
  show "length a = length b" using assms(1,2) by (simp add: has_shape_nth)
next
  fix i assume "i < length a"
  then have i: "i < H" using assms(1) by (simp add: has_shape_nth)
  show "a ! i = b ! i"
  proof (rule nth_equalityI)
    show "length (a ! i) = length (b ! i)" using assms(1,2) i by (simp add: has_shape_nth)
  next
    fix j assume "j < length (a ! i)"
    then have j: "j < W" using assms(1) i by (simp add: has_shape_nth)
    show "a ! i ! j = b ! i ! j"
    proof (rule nth_equalityI)
      show "length (a ! i ! j) = length (b ! i ! j)"
        using assms(1,2) i j by (simp add: has_shape_nth)
    next
      fix c assume "c < length (a ! i ! j)"
      then have c: "c < C" using assms(1) i j by (simp add: has_shape_nth)
      from assms(3) [OF i j c] show "a ! i ! j ! c = b ! i ! j ! c"
        using i j c by (simp add: getitem_shape [OF assms(1)] getitem_shape [OF assms(2)])
    qed
  qed
qed
section \<open>The patch and the QNode\<close>

lemma patch_error: "patch a j k = Inl e \<Longrightarrow> e = IndexError"
  by (auto simp: patch_def split: sum.splits dest: getitem_error)
lemma patch_length: "patch a j k = Inr phi \<Longrightarrow> length phi = 4"
  by (auto simp: patch_def split: sum.splits)
lemma length_patch_vals: "length (patch_vals a j k) = 4"
  by (simp add: patch_vals_def)
lemma patch_shape:
  "has_shape a H W C \<Longrightarrow>
   patch a j k = (if j + 1 < H \<and> k + 1 < W \<and> 0 < C then Inr (patch_vals a j k) else Inl IndexError)"
  by (simp add: patch_def patch_vals_def getitem_shape)
lemma four_in_four_outD:
  "four_in_four_out qnode \<Longrightarrow> length phi = 4 \<Longrightarrow> \<exists>q. qnode phi = Inr q \<and> length q = 4"
  by (auto simp: four_in_four_out_def)
lemma length_projr_qnode:
  assumes "four_in_four_out qnode"
  shows "length (projr (qnode (patch_vals a j k))) = 4"
proof -
  from four_in_four_outD [OF assms length_patch_vals]
  obtain q where "qnode (patch_vals a j k) = Inr q" "length q = 4" by blast
  then show ?thesis by simp
qed
section \<open>The loop over the channels\<close>

text \<open>Every loop writes to \<open>out\<close> only and keeps the size of the store.\<close>

lemma assign_channels_frame:
  "assign_channels out j k q cs h = (r, h') \<Longrightarrow>
   length h' = length h \<and> (\<forall>p. p \<noteq> out \<longrightarrow> h' ! p = h ! p)"
proof (induction cs arbitrary: h)
  case Nil
  then show ?case by simp
next
  case (Cons c cs)
  show ?case
  proof (cases "seq_getitem q c")
    case (Inl e)
    with Cons.prems show ?thesis by simp
  next
    case (Inr v)
    show ?thesis
    proof (cases "setitem (h ! out) (j div 2) (k div 2) c v")
      case (Inl e)
      with Inr Cons.prems show ?thesis by simp
    next
      case a: (Inr a)
      with Inr Cons.prems have "assign_channels out j k q cs (h[out := a]) = (r, h')"
        by simp
      from Cons.IH [OF this] show ?thesis by simp
    qed
  qed
qed
lemma assign_channels_error:
  "assign_channels out j k q cs h = (Some e, h') \<Longrightarrow> e = IndexError"
  by (induction cs arbitrary: h)
     (auto split: sum.splits dest: seq_getitem_error setitem_error)
lemma assign_channels_ok:
  assumes "out < length h" "has_shape (h ! out) Ho Wo 4" "j div 2 < Ho" "k div 2 < Wo"
    and "\<forall>c \<in> set cs. c < 4" "length q = 4"
  shows "\<exists>a'. assign_channels out j k q cs h = (None, h[out := a']) \<and> has_shape a' Ho Wo 4 \<and>
           (\<forall>i' j' c'. getitem a' i' j' c' =
              (if i' = j div 2 \<and> j' = k div 2 \<and> c' \<in> set cs then Inr (q ! c')
               else getitem (h ! out) i' j' c'))"
  using assms(1,2,5)
proof (induction cs arbitrary: h)
  case Nil
  have "h[out := h ! out] = h" by simp
  with Nil show ?case by (intro exI [of _ "h ! out"]) simp
next
  case (Cons c cs)
  from Cons.prems have c: "c < 4" by simp
  with assms(6) have q: "seq_getitem q c = Inr (q ! c)" by (simp add: seq_getitem_def)
  from setitem_shape [OF Cons.prems(2) assms(3,4) c, of "q ! c"]
  obtain a1 where a1: "setitem (h ! out) (j div 2) (k div 2) c (q ! c) = Inr a1"
    "has_shape a1 Ho Wo 4"
    "\<And>i' j' c'. getitem a1 i' j' c' =
        (if i' = j div 2 \<and> j' = k div 2 \<and> c' = c then Inr (q ! c) else getitem (h ! out) i' j' c')"
    by blast
  let ?h1 = "h[out := a1]"
  have "out < length ?h1" "has_shape (?h1 ! out) Ho Wo 4" "\<forall>c \<in> set cs. c < 4"
    using Cons.prems a1(2) by simp_all
  from Cons.IH [OF this]
  obtain a' where a': "assign_channels out j k q cs ?h1 = (None, ?h1[out := a'])"
    "has_shape a' Ho Wo 4"
    "\<And>i' j' c'. getitem a' i' j' c' =
        (if i' = j div 2 \<and> j' = k div 2 \<and> c' \<in> set cs then Inr (q ! c')
         else getitem (?h1 ! out) i' j' c')"
    by blast
  have "assign_channels out j k q (c # cs) h = (None, h[out := a'])"
    using q a1(1) a'(1) by simp
  moreover have "\<forall>i' j' c'. getitem a' i' j' c' =
        (if i' = j div 2 \<and> j' = k div 2 \<and> c' \<in> set (c # cs) then Inr (q ! c')
         else getitem (h ! out) i' j' c')"
    using a'(3) a1(3) Cons.prems(1) by auto
  ultimately show ?case using a'(2) by blast
qed
lemma assign_channels_range:
  assumes "out < length h" "has_shape (h ! out) Ho Wo 4" "j div 2 < Ho" "k div 2 < Wo"
    and "length q = 4"
  shows "\<exists>a'. assign_channels out j k q (py_range 0 4 1) h = (None, h[out := a']) \<and>
           has_shape a' Ho Wo 4 \<and>
           (\<forall>i' j' c'. getitem a' i' j' c' =
              (if i' = j div 2 \<and> j' = k div 2 \<and> c' < 4 then Inr (q ! c')
               else getitem (h ! out) i' j' c'))"
proof -
  have cs: "\<forall>c \<in> set (py_range 0 4 1). c < 4" unfolding py_range_4 by simp
  have c4: "c' \<in> set (py_range 0 4 1) \<longleftrightarrow> c' < 4" for c' unfolding py_range_4 by auto
  from assign_channels_ok [OF assms(1-4) cs assms(5)] show ?thesis
    unfolding c4 .
qed
section \<open>The loop over the columns\<close>

lemma loop_k_frame:
  "loop_k qnode img out j ks h = (r, h') \<Longrightarrow>
   length h' = length h \<and> (\<forall>p. p \<noteq> out \<longrightarrow> h' ! p = h ! p)"
proof (induction ks arbitrary: h)
  case Nil
  then show ?case by simp
next
  case (Cons k ks)
  show ?case
  proof (cases "patch (h ! img) j k")
    case (Inl e)
    with Cons.prems show ?thesis by simp
  next
    case phi: (Inr phi)
    show ?thesis
    proof (cases "qnode phi")
      case (Inl e)
      with phi Cons.prems show ?thesis by simp
    next
      case q: (Inr q)
      obtain r1 h1 where a: "assign_channels out j k q (py_range 0 4 1) h = (r1, h1)"
        by (cases "assign_channels out j k q (py_range 0 4 1) h")
      note f1 = assign_channels_frame [OF a]
      show ?thesis
      proof (cases r1)
        case (Some e)
        with phi q a Cons.prems f1 show ?thesis by simp
      next
        case None
        with phi q a Cons.prems have "loop_k qnode img out j ks h1 = (r, h')" by simp
        from Cons.IH [OF this] f1 show ?thesis by simp
      qed
    qed
  qed
qed
lemma loop_k_error:
  "loop_k qnode img out j ks h = (Some e, h') \<Longrightarrow> four_in_four_out qnode \<Longrightarrow> e = IndexError"
proof (induction ks arbitrary: h)
  case Nil
  then show ?case by simp
next
  case (Cons k ks)
  show ?case
  proof (cases "patch (h ! img) j k")
    case (Inl e')
    with Cons.prems show ?thesis by (auto dest: patch_error)
  next
    case phi: (Inr phi)
    from four_in_four_outD [OF Cons.prems(2) patch_length [OF phi]]
    obtain q where q: "qnode phi = Inr q" by blast
    obtain r1 h1 where a: "assign_channels out j k q (py_range 0 4 1) h = (r1, h1)"
      by (cases "assign_channels out j k q (py_range 0 4 1) h")
    show ?thesis
    proof (cases r1)
      case (Some e')
      with phi q a Cons.prems assign_channels_error [of out j k q _ h e' h1] show ?thesis by simp
    next
      case None
      with phi q a Cons.prems have "loop_k qnode img out j ks h1 = (Some e, h')" by simp
      from Cons.IH [OF this Cons.prems(2)] show ?thesis .
    qed
  qed
qed
text \<open>A loop that ends normally has read every patch it was asked for.\<close>

lemma loop_k_reads:
  "loop_k qnode img out j ks h = (None, h') \<Longrightarrow> img \<noteq> out \<Longrightarrow>
   \<forall>k \<in> set ks. \<exists>phi. patch (h ! img) j k = Inr phi"
proof (induction ks arbitrary: h)
  case Nil
  then show ?case by simp
next
  case (Cons k ks)
  from Cons.prems(1) obtain phi where phi: "patch (h ! img) j k = Inr phi"
    by (cases "patch (h ! img) j k") auto
  with Cons.prems(1) obtain q where q: "qnode phi = Inr q"
    by (cases "qnode phi") auto
  obtain r1 h1 where a: "assign_channels out j k q (py_range 0 4 1) h = (r1, h1)"
    by (cases "assign_channels out j k q (py_range 0 4 1) h")
  with phi q Cons.prems(1) have r1: "r1 = None" and l: "loop_k qnode img out j ks h1 = (None, h')"
    by (auto split: option.splits)
  from assign_channels_frame [OF a] Cons.prems(2) have "h1 ! img = h ! img" by simp
  with Cons.IH [OF l Cons.prems(2)] phi show ?case by simp
qed
text \<open>
  The invariant of the loop: the cells of the patches done so far hold the circuit's
  outputs, every other cell of \<open>out\<close> is as before.
\<close>

lemma loop_k_ok:
  assumes "img < length h" "out < length h" "img \<noteq> out"
    and "has_shape (h ! out) Ho Wo 4" "j div 2 < Ho"
    and "\<forall>k \<in> set ks. even k \<and> k div 2 < Wo \<and> patch (h ! img) j k = Inr (patch_vals (h ! img) j k)"
    and "four_in_four_out qnode"
  shows "\<exists>a'. loop_k qnode img out j ks h = (None, h[out := a']) \<and> has_shape a' Ho Wo 4 \<and>
           (\<forall>i' j' c'. getitem a' i' j' c' =
              (if i' = j div 2 \<and> 2 * j' \<in> set ks \<and> c' < 4
               then Inr (projr (qnode (patch_vals (h ! img) j (2 * j'))) ! c')
               else getitem (h ! out) i' j' c'))"
  using assms(1,2,4,6)
proof (induction ks arbitrary: h)
  case Nil
  have "h[out := h ! out] = h" by simp
  with Nil show ?case by (intro exI [of _ "h ! out"]) simp
next
  case (Cons k ks)
  let ?a = "h ! img"
  let ?phi = "patch_vals ?a j k"
  from Cons.prems(4) have k: "even k" "k div 2 < Wo" "patch ?a j k = Inr ?phi" by simp_all
  from assms(7) length_patch_vals [of ?a j k]
  obtain q where q: "qnode ?phi = Inr q" "length q = 4"
    unfolding four_in_four_out_def by blast
  from assign_channels_range [OF Cons.prems(2,3) assms(5) k(2) q(2)]
  obtain a1 where a1: "assign_channels out j k q (py_range 0 4 1) h = (None, h[out := a1])"
    "has_shape a1 Ho Wo 4"
    "\<And>i' j' c'. getitem a1 i' j' c' =
        (if i' = j div 2 \<and> j' = k div 2 \<and> c' < 4 then Inr (q ! c')
         else getitem (h ! out) i' j' c')"
    by blast
  let ?h1 = "h[out := a1]"
  have img1: "?h1 ! img = ?a" using assms(3) by simp
  have "img < length ?h1" "out < length ?h1" "has_shape (?h1 ! out) Ho Wo 4"
    "\<forall>k \<in> set ks. even k \<and> k div 2 < Wo \<and> patch (?h1 ! img) j k = Inr (patch_vals (?h1 ! img) j k)"
    using Cons.prems a1(2) img1 by simp_all
  from Cons.IH [OF this]
  obtain a' where a': "loop_k qnode img out j ks ?h1 = (None, ?h1[out := a'])"
    "has_shape a' Ho Wo 4"
    "\<And>i' j' c'. getitem a' i' j' c' =
        (if i' = j div 2 \<and> 2 * j' \<in> set ks \<and> c' < 4
         then Inr (projr (qnode (patch_vals (?h1 ! img) j (2 * j'))) ! c')
         else getitem (?h1 ! out) i' j' c')"
    by blast
  have "loop_k qnode img out j (k # ks) h = (None, h[out := a'])"
    using k(3) q(1) a1(1) a'(1) by simp
  moreover have "getitem a' i' j' c' =
        (if i' = j div 2 \<and> 2 * j' \<in> set (k # ks) \<and> c' < 4
         then Inr (projr (qnode (patch_vals ?a j (2 * j'))) ! c')
         else getitem (h ! out) i' j' c')" for i' j' c'
  proof -
    have e: "j' = k div 2 \<longleftrightarrow> 2 * j' = k" using k(1) by auto
    show ?thesis
      unfolding a'(3) img1 using Cons.prems(2) q(1) by (auto simp: a1(3) e)
  qed
  ultimately show ?case using a'(2) by blast
qed
section \<open>The loop over the rows\<close>

lemma loop_j_frame:
  "loop_j qnode img out js h = (r, h') \<Longrightarrow>
   length h' = length h \<and> (\<forall>p. p \<noteq> out \<longrightarrow> h' ! p = h ! p)"
proof (induction js arbitrary: h)
  case Nil
  then show ?case by simp
next
  case (Cons j js)
  obtain r1 h1 where a: "loop_k qnode img out j (py_range 0 28 2) h = (r1, h1)"
    by (cases "loop_k qnode img out j (py_range 0 28 2) h")
  note f1 = loop_k_frame [OF a]
  show ?case
  proof (cases r1)
    case (Some e)
    with a Cons.prems f1 show ?thesis by simp
  next
    case None
    with a Cons.prems have "loop_j qnode img out js h1 = (r, h')" by simp
    from Cons.IH [OF this] f1 show ?thesis by simp
  qed
qed
lemma loop_j_error:
  "loop_j qnode img out js h = (Some e, h') \<Longrightarrow> four_in_four_out qnode \<Longrightarrow> e = IndexError"
  by (induction js arbitrary: h)
     (auto split: option.splits prod.splits dest: loop_k_error)
lemma loop_j_reads:
  "loop_j qnode img out js h = (None, h') \<Longrightarrow> img \<noteq> out \<Longrightarrow>
   \<forall>j \<in> set js. \<forall>k \<in> set (py_range 0 28 2). \<exists>phi. patch (h ! img) j k = Inr phi"
proof (induction js arbitrary: h)
  case Nil
  then show ?case by simp
next
  case (Cons j js)
  obtain r1 h1 where a: "loop_k qnode img out j (py_range 0 28 2) h = (r1, h1)"
    by (cases "loop_k qnode img out j (py_range 0 28 2) h")
  with Cons.prems(1) have r1: "r1 = None" and l: "loop_j qnode img out js h1 = (None, h')"
    by (auto split: option.splits)
  from loop_k_frame [OF a] Cons.prems(2) have "h1 ! img = h ! img" by simp
  with Cons.IH [OF l Cons.prems(2)] loop_k_reads [OF a [unfolded r1] Cons.prems(2)]
  show ?case by simp
qed
lemma loop_j_ok:
  assumes "img < length h" "out < length h" "img \<noteq> out"
    and "has_shape (h ! out) Ho Wo 4" "14 \<le> Wo"
    and "\<forall>j \<in> set js. even j \<and> j div 2 < Ho \<and>
           (\<forall>k \<in> set (py_range 0 28 2). patch (h ! img) j k = Inr (patch_vals (h ! img) j k))"
    and "four_in_four_out qnode"
  shows "\<exists>a'. loop_j qnode img out js h = (None, h[out := a']) \<and> has_shape a' Ho Wo 4 \<and>
           (\<forall>i' j' c'. getitem a' i' j' c' =
              (if 2 * i' \<in> set js \<and> 2 * j' \<in> set (py_range 0 28 2) \<and> c' < 4
               then Inr (projr (qnode (patch_vals (h ! img) (2 * i') (2 * j'))) ! c')
               else getitem (h ! out) i' j' c'))"
  using assms(1,2,4,6)
proof (induction js arbitrary: h)
  case Nil
  have "h[out := h ! out] = h" by simp
  with Nil show ?case by (intro exI [of _ "h ! out"]) simp
next
  case (Cons j js)
  let ?a = "h ! img"
  from Cons.prems(4) have j: "even j" "j div 2 < Ho"
    "\<forall>k \<in> set (py_range 0 28 2). patch ?a j k = Inr (patch_vals ?a j k)" by simp_all
  have ks: "\<forall>k \<in> set (py_range 0 28 2).
      even k \<and> k div 2 < Wo \<and> patch ?a j k = Inr (patch_vals ?a j k)"
    using j(3) assms(5) by (auto simp: set_py_range_28)
  from loop_k_ok [OF Cons.prems(1,2) assms(3) Cons.prems(3) j(2) ks assms(7)]
  obtain a1 where a1: "loop_k qnode img out j (py_range 0 28 2) h = (None, h[out := a1])"
    "has_shape a1 Ho Wo 4"
    "\<And>i' j' c'. getitem a1 i' j' c' =
        (if i' = j div 2 \<and> 2 * j' \<in> set (py_range 0 28 2) \<and> c' < 4
         then Inr (projr (qnode (patch_vals ?a j (2 * j'))) ! c')
         else getitem (h ! out) i' j' c')"
    by blast
  let ?h1 = "h[out := a1]"
  have img1: "?h1 ! img = ?a" using assms(3) by simp
  have "img < length ?h1" "out < length ?h1" "has_shape (?h1 ! out) Ho Wo 4"
    "\<forall>j \<in> set js. even j \<and> j div 2 < Ho \<and>
       (\<forall>k \<in> set (py_range 0 28 2). patch (?h1 ! img) j k = Inr (patch_vals (?h1 ! img) j k))"
    using Cons.prems a1(2) img1 by simp_all
  from Cons.IH [OF this]
  obtain a' where a': "loop_j qnode img out js ?h1 = (None, ?h1[out := a'])"
    "has_shape a' Ho Wo 4"
    "\<And>i' j' c'. getitem a' i' j' c' =
        (if 2 * i' \<in> set js \<and> 2 * j' \<in> set (py_range 0 28 2) \<and> c' < 4
         then Inr (projr (qnode (patch_vals (?h1 ! img) (2 * i') (2 * j'))) ! c')
         else getitem (?h1 ! out) i' j' c')"
    by blast
  have "loop_j qnode img out (j # js) h = (None, h[out := a'])"
    using a1(1) a'(1) by simp
  moreover have "getitem a' i' j' c' =
        (if 2 * i' \<in> set (j # js) \<and> 2 * j' \<in> set (py_range 0 28 2) \<and> c' < 4
         then Inr (projr (qnode (patch_vals ?a (2 * i') (2 * j'))) ! c')
         else getitem (h ! out) i' j' c')" for i' j' c'
  proof -
    have e: "i' = j div 2 \<longleftrightarrow> 2 * i' = j" using j(1) by auto
    show ?thesis
      unfolding a'(3) img1 using Cons.prems(2) by (auto simp: a1(3) e)
  qed
  ultimately show ?case using a'(2) by blast
qed
section \<open>The whole function\<close>

lemma has_shape_feature_tensor:
  "four_in_four_out qnode \<Longrightarrow> has_shape (feature_tensor qnode a) 14 14 4"
  by (simp add: has_shape_nth feature_tensor_def length_projr_qnode)
lemma getitem_feature_tensor:
  "four_in_four_out qnode \<Longrightarrow> r < 14 \<Longrightarrow> s < 14 \<Longrightarrow> c < 4 \<Longrightarrow>
   getitem (feature_tensor qnode a) r s c = Inr (projr (qnode (patch_vals a (2 * r) (2 * s))) ! c)"
  by (simp add: getitem_def feature_tensor_def length_projr_qnode)
lemma feature_tensor_cong:
  assumes "\<And>i j. i < 28 \<Longrightarrow> j < 28 \<Longrightarrow> b ! i ! j ! 0 = a ! i ! j ! 0"
  shows "feature_tensor qnode b = feature_tensor qnode a"
proof -
  have "patch_vals b (2 * r) (2 * s) = patch_vals a (2 * r) (2 * s)" if "r < 14" "s < 14" for r s
    using that by (simp add: patch_vals_def assms)
  then show ?thesis by (simp add: feature_tensor_def)
qed
lemma has_shape_top_left_28:
  assumes "has_shape a H W C" "28 \<le> H" "28 \<le> W" "0 < C"
  shows "has_shape (top_left_28 a) 28 28 1"
  using assms by (auto simp: has_shape_nth top_left_28_def)
lemma nth_top_left_28:
  assumes "has_shape a H W C" "28 \<le> H" "28 \<le> W" "0 < C" "i < 28" "j < 28"
  shows "top_left_28 a ! i ! j ! 0 = a ! i ! j ! 0"
  using assms by (auto simp: has_shape_nth top_left_28_def)
text \<open>
  On an image with at least 28 rows, 28 columns and one channel, \<^verbatim>\<open>quanv\<close> returns a
  new array that holds the tensor of the specification.
\<close>

lemma quanv_ok:
  fixes qnode :: "'a::zero qnode"
  assumes "img < length h" "has_shape (h ! img) H W C" "28 \<le> H" "28 \<le> W" "0 < C"
    and contract: "four_in_four_out qnode"
  shows "quanv qnode img h = (Inr (length h), h @ [feature_tensor qnode (h ! img)])"
proof -
  let ?out = "length h"
  let ?h0 = "h @ [np_zeros 14 14 4 :: 'a ndarray]"
  let ?a = "h ! img"
  have img0: "?h0 ! img = ?a" using assms(1) by (simp add: nth_append)
  have out0: "?h0 ! ?out = np_zeros 14 14 4" by simp
  have 1: "img < length ?h0" "?out < length ?h0" "img \<noteq> ?out" using assms(1) by simp_all
  have 2: "has_shape (?h0 ! ?out) 14 14 4" unfolding out0 by (rule has_shape_np_zeros)
  have 3: "\<forall>j \<in> set (py_range 0 28 2). even j \<and> j div 2 < 14 \<and>
      (\<forall>k \<in> set (py_range 0 28 2). patch (?h0 ! img) j k = Inr (patch_vals (?h0 ! img) j k))"
    unfolding img0 set_py_range_28 using assms(3-5)
    by (auto simp: patch_shape [OF assms(2)])
  from loop_j_ok [OF 1 2 order_refl 3 contract]
  obtain a' where a': "loop_j qnode img ?out (py_range 0 28 2) ?h0 = (None, ?h0[?out := a'])"
    "has_shape a' 14 14 4"
    "\<And>i' j' c'. getitem a' i' j' c' =
        (if 2 * i' \<in> set (py_range 0 28 2) \<and> 2 * j' \<in> set (py_range 0 28 2) \<and> c' < 4
         then Inr (projr (qnode (patch_vals (?h0 ! img) (2 * i') (2 * j'))) ! c')
         else getitem (?h0 ! ?out) i' j' c')"
    by blast
  have "a' = feature_tensor qnode ?a"
  proof (rule ndarray_ext [OF a'(2) has_shape_feature_tensor [OF contract]])
    fix i j c :: nat
    assume "i < 14" "j < 14" "c < 4"
    then show "getitem a' i j c = getitem (feature_tensor qnode ?a) i j c"
      unfolding a'(3) img0 set_py_range_28
      by (simp add: getitem_feature_tensor [OF contract])
  qed
  with a'(1) show ?thesis by (simp add: quanv_def Let_def)
qed
lemma quanv_frame:
  assumes "quanv qnode img h = (r, h')"
  shows "length h' = length h + 1 \<and> (\<forall>p < length h. h' ! p = h ! p)"
proof -
  obtain r1 where "loop_j qnode img (length h) (py_range 0 28 2) (h @ [np_zeros 14 14 4]) = (r1, h')"
    using assms by (auto simp: quanv_def Let_def split: prod.splits option.splits)
  from loop_j_frame [OF this] show ?thesis by (auto simp: nth_append)
qed
text \<open>On any smaller image a pixel read is out of bounds before the loops end.\<close>

lemma quanv_fail:
  fixes qnode :: "'a::zero qnode"
  assumes "img < length h" "has_shape (h ! img) H W C" "H < 28 \<or> W < 28 \<or> C = 0"
    and contract: "four_in_four_out qnode"
  shows "fst (quanv qnode img h) = Inl IndexError"
proof -
  let ?h0 = "h @ [np_zeros 14 14 4 :: 'a ndarray]"
  obtain r1 h' where l: "loop_j qnode img (length h) (py_range 0 28 2) ?h0 = (r1, h')"
    by (cases "loop_j qnode img (length h) (py_range 0 28 2) ?h0")
  show ?thesis
  proof (cases r1)
    case None
    have "26 \<in> set (py_range 0 28 2)" unfolding set_py_range_28 by simp
    with loop_j_reads [OF l [unfolded None]] assms(1)
    obtain phi where "patch (?h0 ! img) 26 26 = Inr phi" by blast
    then have "patch (h ! img) 26 26 = Inr phi" using assms(1) by (simp add: nth_append)
    with assms(3) show ?thesis by (auto simp: patch_shape [OF assms(2)] split: if_splits)
  next
    case (Some e)
    with l loop_j_error [OF _ contract, of img "length h" _ ?h0 e h'] show ?thesis
      by (simp add: quanv_def Let_def)
  qed
qed
lemma outcome_ok:
  fixes qnode :: "'a::zero qnode"
  assumes "img < length h" "has_shape (h ! img) H W C" "28 \<le> H" "28 \<le> W" "0 < C"
    and "four_in_four_out qnode"
  shows "outcome qnode img h = Inr (feature_tensor qnode (h ! img))"
  by (simp add: outcome_def quanv_ok [OF assms])
lemma outcome_fail:
  fixes qnode :: "'a::zero qnode"
  assumes "img < length h" "has_shape (h ! img) H W C" "H < 28 \<or> W < 28 \<or> C = 0"
    and "four_in_four_out qnode"
  shows "outcome qnode img h = Inl IndexError"
  using quanv_fail [OF assms] by (auto simp: outcome_def split: prod.splits sum.splits)
section \<open>The circuit returns four values\<close>

lemma encoding_four:
  "length phi = 4 \<Longrightarrow> \<exists>enc. encoding phi (py_range 0 4 1) = Inr enc"
  unfolding py_range_4 by (simp add: seq_getitem_def)
lemma circuit_four: "four_in_four_out (circuit draws rand_params)"
  unfolding four_in_four_out_def
proof (intro allI impI)
  fix phi :: "real list"
  assume "length phi = 4"
  from encoding_four [OF this] obtain enc where "encoding phi (py_range 0 4 1) = Inr enc" ..
  then show "\<exists>q. circuit draws rand_params phi = Inr q \<and> length q = 4"
    unfolding circuit_def Let_def py_range_4 by simp
qed
section \<open>Gates of angle zero\<close>

lemma matrix_zero: "matrix g 0 r c = (if r = c then 1 else 0)"
  by (cases g) simp_all
lemma apply_Rot_zero: "apply_operation (Rot g 0 w) \<psi> = \<psi>"
proof (rule ext)
  fix b :: basis
  have "b(w := b w) = b" by simp
  then show "apply_operation (Rot g 0 w) \<psi> b = \<psi> b"
    by (cases "b w") (simp_all add: matrix_zero fun_upd_idem)
qed
lemma apply_CNOT_ground: "c \<noteq> t \<Longrightarrow> apply_operation (CNOT c t) ground = ground"
  by (rule ext) (auto simp: ground_def fun_eq_iff)
lemma zero_angle_fixes_ground:
  "valid_operation op \<Longrightarrow> zero_angle op \<Longrightarrow> apply_operation op ground = ground"
  by (cases op) (simp_all add: apply_Rot_zero apply_CNOT_ground del: apply_operation.simps)
lemma execute_zero_angles:
  "list_all valid_operation ops \<Longrightarrow> list_all zero_angle ops \<Longrightarrow> execute ops = ground"
proof -
  have "foldl (\<lambda>\<psi> op. apply_operation op \<psi>) ground ops = ground"
    if "list_all valid_operation ops" "list_all zero_angle ops"
    using that by (induction ops) (simp_all add: zero_angle_fixes_ground del: apply_operation.simps)
  then show "list_all valid_operation ops \<Longrightarrow> list_all zero_angle ops \<Longrightarrow> execute ops = ground"
    by (simp add: execute_def)
qed
text \<open>The operations the template produces, from valid draws and from zero weights.\<close>

lemma random_layer_valid:
  "list_all valid_draw ds \<Longrightarrow>
   list_all valid_operation (fst (random_layer ds ws)) \<and> list_all valid_draw (snd (random_layer ds ws))"
  by (induction ds ws rule: random_layer.induct) (auto split: prod.splits)
lemma random_layer_zero:
  "list_all (\<lambda>x. x = 0) ws \<Longrightarrow> list_all zero_angle (fst (random_layer ds ws))"
  by (induction ds ws rule: random_layer.induct) (auto split: prod.splits)
lemma RandomLayers_valid:
  "list_all valid_draw ds \<Longrightarrow> list_all valid_operation (RandomLayers ds wss)"
proof (induction wss arbitrary: ds)
  case Nil
  then show ?case by simp
next
  case (Cons ws wss)
  obtain ops ds' where r: "random_layer ds ws = (ops, ds')" by (cases "random_layer ds ws")
  from random_layer_valid [OF Cons.prems, of ws] r
  have "list_all valid_operation ops" "list_all valid_draw ds'" by simp_all
  with Cons.IH [of ds'] r show ?case by simp
qed
lemma RandomLayers_zero:
  "list_all (list_all (\<lambda>x. x = 0)) wss \<Longrightarrow> list_all zero_angle (RandomLayers ds wss)"
proof (induction wss arbitrary: ds)
  case Nil
  then show ?case by simp
next
  case (Cons ws wss)
  obtain ops ds' where r: "random_layer ds ws = (ops, ds')" by (cases "random_layer ds ws")
  from Cons.prems random_layer_zero [of ws ds] r have "list_all zero_angle ops" by simp
  with Cons.prems Cons.IH [of ds'] r show ?case by simp
qed
lemma encoding_valid:
  "encoding phi js = Inr enc \<Longrightarrow> list_all valid_operation enc"
  by (induction js arbitrary: enc) (auto split: sum.splits)
lemma encoding_zero:
  "encoding phi js = Inr enc \<Longrightarrow> list_all (\<lambda>x. x = 0) phi \<Longrightarrow> list_all zero_angle enc"
proof (induction js arbitrary: enc)
  case Nil
  then show ?case by simp
next
  case (Cons j js)
  from Cons.prems(1) obtain x ops where x: "seq_getitem phi j = Inr x"
    and ops: "encoding phi js = Inr ops" and enc: "enc = Rot RY (pi * x) (of_nat j) # ops"
    by (auto split: sum.splits)
  from x Cons.prems(2) have "x = 0"
    by (auto simp: seq_getitem_def list_all_length split: if_splits)
  with Cons.IH [OF ops Cons.prems(2)] enc show ?case by simp
qed
lemma expval_PauliZ_ground: "expval_PauliZ w ground = 1"
proof -
  have "(if b w then - 1 else 1) * (cmod (ground b))\<^sup>2 = (if b = (\<lambda>w. False) then 1 else 0)"
    for b :: basis
    by (auto simp: ground_def)
  then have "expval_PauliZ w ground = (\<Sum>b \<in> (UNIV :: basis set). if b = (\<lambda>w. False) then 1 else 0)"
    by (simp add: expval_PauliZ_def)
  also have "\<dots> = 1" by (subst sum.delta) simp_all
  finally show ?thesis .
qed
lemma circuit_zero:
  assumes "list_all valid_draw draws" "list_all (list_all (\<lambda>x. x = 0)) rand_params"
  shows "circuit draws rand_params [0, 0, 0, 0] = Inr [1, 1, 1, 1]"
proof -
  from encoding_four [of "[0, 0, 0, 0]"]
  obtain enc where enc: "encoding [0, 0, 0, 0] (py_range 0 4 1) = Inr enc" by auto
  have "execute (enc @ RandomLayers draws rand_params) = ground"
    by (rule execute_zero_angles)
       (simp_all add: encoding_valid [OF enc] encoding_zero [OF enc]
          RandomLayers_valid [OF assms(1)] RandomLayers_zero [OF assms(2)])
  with enc show ?thesis
    unfolding circuit_def Let_def py_range_4 by (simp add: expval_PauliZ_ground)
qed
lemma patch_vals_np_zeros:
  "r < 14 \<Longrightarrow> s < 14 \<Longrightarrow> patch_vals (np_zeros 28 28 1) (2 * r) (2 * s) = [0, 0, 0, 0]"
  by (simp add: patch_vals_def np_zeros_def)
lemma feature_tensor_const:
  assumes "\<And>r s. r < 14 \<Longrightarrow> s < 14 \<Longrightarrow> qnode (patch_vals a (2 * r) (2 * s)) = Inr q"
  shows "feature_tensor qnode a = replicate 14 (replicate 14 q)"
proof -
  have "map (\<lambda>s. projr (qnode (patch_vals a (2 * r) (2 * s)))) [0 ..< 14] = replicate 14 q"
    if "r < 14" for r
  proof -
    have "map (\<lambda>s. projr (qnode (patch_vals a (2 * r) (2 * s)))) [0 ..< 14] = map (\<lambda>s. q) [0 ..< 14]"
      by (rule map_cong) (simp_all add: assms that)
    then show ?thesis by (simp add: map_replicate_const)
  qed
  then have "feature_tensor qnode a = map (\<lambda>r. replicate 14 q) [0 ..< 14]"
    unfolding feature_tensor_def by (intro map_cong) simp_all
  then show ?thesis by (simp add: map_replicate_const)
qed
section \<open>Measuring an encoded value\<close>

text \<open>The basis states pair up along a wire: those with bit 0 and the same with bit 1.\<close>

lemma sum_split_wire:
  fixes F :: "basis \<Rightarrow> real"
  shows "(\<Sum>b \<in> UNIV. F b) = (\<Sum>b \<in> {b. \<not> b w}. F b + F (b(w := True)))"
proof -
  have u: "(UNIV :: basis set) = {b. \<not> b w} \<union> {b. b w}" by auto
  have "sum F ({b. \<not> b w} \<union> {b. b w}) = sum F {b. \<not> b w} + sum F {b. b w}"
    by (rule sum.union_disjoint) auto
  then have "(\<Sum>b \<in> UNIV. F b) = (\<Sum>b \<in> {b. \<not> b w}. F b) + (\<Sum>b \<in> {b. b w}. F b)"
    unfolding u [symmetric] .
  also have "(\<Sum>b \<in> {b. b w}. F b) = (\<Sum>b \<in> {b. \<not> b w}. F (b(w := True)))"
    by (rule sum.reindex_bij_witness [where i = "\<lambda>b. b(w := True)" and j = "\<lambda>b. b(w := False)"])
       (auto simp: fun_upd_idem)
  finally show ?thesis by (simp add: sum.distrib)
qed
text \<open>
  The encoding is not idle: a rotation \<^verbatim>\<open>RY\<close> by \<open>\<theta>\<close> of a qubit in its ground
  state, measured at once, gives \<open>cos \<theta>\<close>; a pixel value 0 measures +1 and a pixel
  value 1, rotated by pi, measures -1.
\<close>

lemma ground_upd_True: "ground (b(w := True)) = 0"
  by (auto simp: ground_def fun_eq_iff)
lemma expval_PauliZ_RY_ground:
  "expval_PauliZ w (apply_operation (Rot RY \<theta> w) ground) = cos \<theta>"
proof -
  let ?\<psi> = "apply_operation (Rot RY \<theta> w) ground"
  have c: "cos \<theta> = (cos (\<theta> / 2))\<^sup>2 - (sin (\<theta> / 2))\<^sup>2"
    using cos_double [of "\<theta> / 2"] by simp
  have "(if b w then - 1 else 1) * (cmod (?\<psi> b))\<^sup>2 +
        (if (b(w := True)) w then - 1 else 1) * (cmod (?\<psi> (b(w := True))))\<^sup>2 =
        (if b = (\<lambda>w. False) then cos \<theta> else 0)" if "\<not> b w" for b
  proof -
    from that have "b(w := False) = b" by (simp add: fun_upd_idem)
    with that show ?thesis
      by (simp add: ground_upd_True norm_mult power_mult_distrib c) (simp add: ground_def)
  qed
  then have "expval_PauliZ w ?\<psi> = (\<Sum>b \<in> {b. \<not> b w}. if b = (\<lambda>w. False) then cos \<theta> else 0)"
    unfolding expval_PauliZ_def sum_split_wire [of _ w] by (intro sum.cong) simp_all
  also have "\<dots> = cos \<theta>" by (subst sum.delta) simp_all
  finally show ?thesis .
qed
section \<open>The claims\<close>

text \<open>
  C1. For every 28x28x1 image and every patch whose top-left pixel \<open>(j, k)\<close> has even
  coordinates, \<^verbatim>\<open>quanv\<close> passes the circuit the pixels at \<open>(j, k)\<close>, \<open>(j, k+1)\<close>,
  \<open>(j+1, k)\<close>, \<open>(j+1, k+1)\<close>, in this order, and cell \<open>(j/2, k/2, c)\<close> of the returned
  tensor holds channel \<open>c\<close> of what the circuit returned for them. The QNode is any
  function that answers four values with four values, so the order of the arguments is
  pinned down.
\<close>

theorem quanv_patch_to_cell:
  fixes qnode :: "'a::zero qnode"
  assumes "four_in_four_out qnode" "img < length h" "has_shape (h ! img) 28 28 1"
    and "even j" "j < 28" "even k" "k < 28" "c < 4"
  shows "\<exists>p0 p1 p2 p3 q t.
           getitem (h ! img) j k 0 = Inr p0 \<and> getitem (h ! img) j (k + 1) 0 = Inr p1 \<and>
           getitem (h ! img) (j + 1) k 0 = Inr p2 \<and> getitem (h ! img) (j + 1) (k + 1) 0 = Inr p3 \<and>
           qnode [p0, p1, p2, p3] = Inr q \<and>
           outcome qnode img h = Inr t \<and>
           getitem t (j div 2) (k div 2) c = Inr (q ! c)"
proof -
  let ?a = "h ! img"
  from assms(4,5) have j: "j + 1 < 28" "2 * (j div 2) = j" "j div 2 < 14" by auto
  from assms(6,7) have k: "k + 1 < 28" "2 * (k div 2) = k" "k div 2 < 14" by auto
  from four_in_four_outD [OF assms(1) length_patch_vals]
  obtain q where q: "qnode (patch_vals ?a j k) = Inr q" by blast
  have t: "outcome qnode img h = Inr (feature_tensor qnode ?a)"
    by (rule outcome_ok [OF assms(2,3) _ _ _ assms(1)]) simp_all
  have "getitem (feature_tensor qnode ?a) (j div 2) (k div 2) c = Inr (q ! c)"
    using getitem_feature_tensor [OF assms(1) j(3) k(3) assms(8), of ?a] q by (simp add: j k)
  with q t show ?thesis
    using j(1) k(1) assms(5,7)
    by (simp add: getitem_shape [OF assms(3)] patch_vals_def)
qed
text \<open>Witness of C1: the patch at (2, 4) of the all-zero image, channel 3.\<close>

theorem quanv_patch_to_cell_witness:
  "four_in_four_out (circuit sample_draws [[0, 0, 0, 0]]) \<and>
   (0::nat) < length [np_zeros 28 28 1 :: real ndarray] \<and>
   has_shape ([np_zeros 28 28 1 :: real ndarray] ! 0) 28 28 1 \<and>
   even (2::nat) \<and> (2::nat) < 28 \<and> even (4::nat) \<and> (4::nat) < 28 \<and> (3::nat) < 4 \<and>
   (\<exists>p0 p1 p2 p3 q t.
      getitem ([np_zeros 28 28 1] ! 0) 2 4 0 = Inr p0 \<and>
      getitem ([np_zeros 28 28 1] ! 0) 2 (4 + 1) 0 = Inr p1 \<and>
      getitem ([np_zeros 28 28 1] ! 0) (2 + 1) 4 0 = Inr p2 \<and>
      getitem ([np_zeros 28 28 1] ! 0) (2 + 1) (4 + 1) 0 = Inr p3 \<and>
      circuit sample_draws [[0, 0, 0, 0]] [p0, p1, p2, p3] = Inr q \<and>
      outcome (circuit sample_draws [[0, 0, 0, 0]]) 0 [np_zeros 28 28 1] = Inr t \<and>
      getitem t (2 div 2) (4 div 2) 3 = Inr (q ! 3))"
proof -
  let ?h = "[np_zeros 28 28 1 :: real ndarray]"
  have 1: "four_in_four_out (circuit sample_draws [[0, 0, 0, 0]])" by (rule circuit_four)
  have 2: "(0::nat) < length ?h" by simp
  have 3: "has_shape (?h ! 0) 28 28 1" by (simp add: has_shape_np_zeros)
  have 4: "even (2::nat)" "(2::nat) < 28" "even (4::nat)" "(4::nat) < 28" "(3::nat) < 4"
    by simp_all
  from quanv_patch_to_cell [OF 1 2 3 4] 1 2 3 4 show ?thesis by blast
qed
text \<open>
  C2, as amended. For an image of shape (28, 28, 1), \<^verbatim>\<open>quanv\<close> returns a tensor of
  shape (14, 14, 4). The sizes 28 and 14 are written into the loops and into
  \<^verbatim>\<open>np.zeros((14, 14, 4))\<close>; the shape law of the specification, (H/2, W/2, 4) for
  every even H and W, holds at H = W = 28 only.
\<close>

theorem quanv_shape_28:
  fixes qnode :: "'a::zero qnode"
  assumes "four_in_four_out qnode" "img < length h" "has_shape (h ! img) 28 28 1"
  shows "\<exists>t. outcome qnode img h = Inr t \<and> has_shape t 14 14 4"
proof -
  have "outcome qnode img h = Inr (feature_tensor qnode (h ! img))"
    by (rule outcome_ok [OF assms(2,3) _ _ _ assms(1)]) simp_all
  with has_shape_feature_tensor [OF assms(1)] show ?thesis by blast
qed
text \<open>Witness of C2: the all-zero 28x28x1 image.\<close>

theorem quanv_shape_28_witness:
  "four_in_four_out (circuit sample_draws [[0, 0, 0, 0]]) \<and>
   (0::nat) < length [np_zeros 28 28 1 :: real ndarray] \<and>
   has_shape ([np_zeros 28 28 1 :: real ndarray] ! 0) 28 28 1 \<and>
   (\<exists>t. outcome (circuit sample_draws [[0, 0, 0, 0]]) 0 [np_zeros 28 28 1] = Inr t \<and>
        has_shape t 14 14 4)"
proof -
  let ?h = "[np_zeros 28 28 1 :: real ndarray]"
  have 1: "four_in_four_out (circuit sample_draws [[0, 0, 0, 0]])" by (rule circuit_four)
  have 2: "(0::nat) < length ?h" by simp
  have 3: "has_shape (?h ! 0) 28 28 1" by (simp add: has_shape_np_zeros)
  from quanv_shape_28 [OF 1 2 3] 1 2 3 show ?thesis by blast
qed
text \<open>
  Counterexample to C2 as stated: on an image of shape (2, 2, 1) the claim promises a
  tensor of shape (1, 1, 4); the read \<^verbatim>\<open>image[0, 2, 0]\<close> of the second patch raises
  IndexError.
\<close>

theorem quanv_shape_counterexample:
  "outcome (circuit sample_draws [[0, 0, 0, 0]]) 0 [np_zeros 2 2 1] = Inl IndexError"
proof -
  let ?h = "[np_zeros 2 2 1 :: real ndarray]"
  have "(0::nat) < length ?h" by simp
  moreover have "has_shape (?h ! 0) 2 2 1" by (simp add: has_shape_np_zeros)
  moreover have "(2::nat) < 28 \<or> (2::nat) < 28 \<or> (1::nat) = 0" by simp
  ultimately show ?thesis using circuit_four by (rule outcome_fail)
qed
text \<open>
  C3, as amended. For the all-zero image of shape (28, 28, 1), with every circuit
  parameter 0 (and whatever gates the template draws), \<^verbatim>\<open>quanv\<close> returns the tensor
  of shape (14, 14, 4) whose every entry is 1: every rotation is the identity, a
  \<^verbatim>\<open>CNOT\<close> leaves the ground state as it is, and the ground state measures +1 on
  every wire.
\<close>

theorem quanv_zero_image_zero_parameters:
  assumes "list_all valid_draw draws" "list_all (list_all (\<lambda>x. x = 0)) rand_params"
    and "img < length h" "h ! img = np_zeros 28 28 1"
  shows "outcome (circuit draws rand_params) img h = Inr (replicate 14 (replicate 14 (replicate 4 1)))"
proof -
  have s: "has_shape (h ! img) 28 28 1" unfolding assms(4) by (rule has_shape_np_zeros)
  have "outcome (circuit draws rand_params) img h =
        Inr (feature_tensor (circuit draws rand_params) (h ! img))"
    by (rule outcome_ok [OF assms(3) s _ _ _ circuit_four]) simp_all
  moreover have "feature_tensor (circuit draws rand_params) (h ! img) =
        replicate 14 (replicate 14 [1, 1, 1, 1])"
    unfolding assms(4)
  proof (rule feature_tensor_const)
    fix r s :: nat
    assume "r < 14" "s < 14"
    then have "patch_vals (np_zeros 28 28 1) (2 * r) (2 * s) = [0, 0, 0, 0 :: real]"
      by (rule patch_vals_np_zeros)
    with circuit_zero [OF assms(1,2)]
    show "circuit draws rand_params (patch_vals (np_zeros 28 28 1) (2 * r) (2 * s)) =
        Inr [1, 1, 1, 1]"
      by (simp only:)
  qed
  moreover have "replicate 4 (1::real) = [1, 1, 1, 1]" by (simp add: numeral_eq_Suc)
  ultimately show ?thesis by simp
qed
text \<open>Witness of C3: the sample draws, one layer of four zero weights.\<close>

theorem quanv_zero_image_zero_parameters_witness:
  "list_all valid_draw sample_draws \<and> list_all (list_all (\<lambda>x. x = 0)) [[0, 0, 0, 0 :: real]] \<and>
   (0::nat) < length [np_zeros 28 28 1 :: real ndarray] \<and>
   [np_zeros 28 28 1 :: real ndarray] ! 0 = np_zeros 28 28 1 \<and>
   outcome (circuit sample_draws [[0, 0, 0, 0]]) 0 [np_zeros 28 28 1] =
     Inr (replicate 14 (replicate 14 (replicate 4 1)))"
proof -
  have 1: "list_all valid_draw sample_draws" by (simp add: sample_draws_def)
  have 2: "list_all (list_all (\<lambda>x. x = 0)) [[0, 0, 0, 0 :: real]]" by simp
  have 3: "(0::nat) < length [np_zeros 28 28 1 :: real ndarray]" by simp
  have 4: "[np_zeros 28 28 1 :: real ndarray] ! 0 = np_zeros 28 28 1" by simp
  from quanv_zero_image_zero_parameters [OF 1 2 3 4] 1 2 3 4 show ?thesis by blast
qed
text \<open>
  Counterexample to C3 as stated: on the all-zero image of shape (4, 4, 1) the loops
  still run to 28; the third patch of the first row reads \<^verbatim>\<open>image[0, 4, 0]\<close>, which
  raises IndexError, and no 2x2x4 tensor is returned.
\<close>

theorem quanv_4x4_counterexample:
  "outcome (circuit sample_draws [[0, 0, 0, 0]]) 0 [np_zeros 4 4 1] = Inl IndexError"
proof -
  let ?h = "[np_zeros 4 4 1 :: real ndarray]"
  have "(0::nat) < length ?h" by simp
  moreover have "has_shape (?h ! 0) 4 4 1" by (simp add: has_shape_np_zeros)
  moreover have "(4::nat) < 28 \<or> (4::nat) < 28 \<or> (1::nat) = 0" by simp
  ultimately show ?thesis using circuit_four by (rule outcome_fail)
qed
text \<open>
  C4. \<^verbatim>\<open>quanv\<close> is a function of the image's contents and the QNode: in any two
  stores that hold the same image it produces the same tensor, or the same exception;
  and a second call, in the store the first call leaves, produces what the first did.
\<close>

theorem quanv_deterministic:
  fixes qnode :: "'a::zero qnode"
  assumes "four_in_four_out qnode" "img < length h" "has_shape (h ! img) H W C"
    and "img' < length h'" "h' ! img' = h ! img"
  shows "outcome qnode img' h' = outcome qnode img h \<and>
         outcome qnode img (snd (quanv qnode img h)) = outcome qnode img h"
proof -
  let ?h1 = "snd (quanv qnode img h)"
  have "quanv qnode img h = (fst (quanv qnode img h), ?h1)" by simp
  from quanv_frame [OF this] assms(2)
  have 1: "img < length ?h1" "?h1 ! img = h ! img" by simp_all
  have s': "has_shape (h' ! img') H W C" and s1: "has_shape (?h1 ! img) H W C"
    using assms(3,5) 1(2) by simp_all
  show ?thesis
  proof (cases "28 \<le> H \<and> 28 \<le> W \<and> 0 < C")
    case True
    then have ok: "28 \<le> H" "28 \<le> W" "0 < C" by simp_all
    show ?thesis
      using outcome_ok [OF assms(2,3) ok assms(1)] outcome_ok [OF assms(4) s' ok assms(1)]
        outcome_ok [OF 1(1) s1 ok assms(1)] assms(5) 1(2)
      by simp
  next
    case False
    then have bad: "H < 28 \<or> W < 28 \<or> C = 0" by auto
    show ?thesis
      using outcome_fail [OF assms(2,3) bad assms(1)] outcome_fail [OF assms(4) s' bad assms(1)]
        outcome_fail [OF 1(1) s1 bad assms(1)]
      by simp
  qed
qed
text \<open>
  Witness of C4: the all-zero 28x28x1 image, alone in one store and behind another
  array in a second store.
\<close>

theorem quanv_deterministic_witness:
  "four_in_four_out (circuit sample_draws [[0, 0, 0, 0]]) \<and>
   (0::nat) < length [np_zeros 28 28 1 :: real ndarray] \<and>
   has_shape ([np_zeros 28 28 1 :: real ndarray] ! 0) 28 28 1 \<and>
   (1::nat) < length [np_zeros 2 2 1, np_zeros 28 28 1 :: real ndarray] \<and>
   [np_zeros 2 2 1, np_zeros 28 28 1 :: real ndarray] ! 1 = [np_zeros 28 28 1] ! 0 \<and>
   outcome (circuit sample_draws [[0, 0, 0, 0]]) 1 [np_zeros 2 2 1, np_zeros 28 28 1] =
     outcome (circuit sample_draws [[0, 0, 0, 0]]) 0 [np_zeros 28 28 1] \<and>
   outcome (circuit sample_draws [[0, 0, 0, 0]]) 0
       (snd (quanv (circuit sample_draws [[0, 0, 0, 0]]) 0 [np_zeros 28 28 1])) =
     outcome (circuit sample_draws [[0, 0, 0, 0]]) 0 [np_zeros 28 28 1]"
proof -
  let ?h = "[np_zeros 28 28 1 :: real ndarray]"
  let ?h' = "[np_zeros 2 2 1, np_zeros 28 28 1 :: real ndarray]"
  have 1: "four_in_four_out (circuit sample_draws [[0, 0, 0, 0]])" by (rule circuit_four)
  have 2: "(0::nat) < length ?h" by simp
  have 3: "has_shape (?h ! 0) 28 28 1" by (simp add: has_shape_np_zeros)
  have 4: "(1::nat) < length ?h'" by simp
  have 5: "?h' ! 1 = ?h ! 0" by simp
  from quanv_deterministic [OF 1 2 3 4 5] 1 2 3 4 5 show ?thesis by blast
qed
text \<open>
  C5. Two images of the same shape that agree on the four pixels of the patch at
  \<open>(j, k)\<close>, however they differ elsewhere, give the same value in cell \<open>(j/2, k/2, c)\<close>.
\<close>

theorem quanv_patch_independence:
  fixes qnode :: "'a::zero qnode"
  assumes "four_in_four_out qnode"
    and "img < length h" "has_shape (h ! img) H W C"
    and "img' < length h'" "has_shape (h' ! img') H W C"
    and "28 \<le> H" "28 \<le> W" "0 < C"
    and "even j" "j < 28" "even k" "k < 28" "c < 4"
    and "getitem (h' ! img') j k 0 = getitem (h ! img) j k 0"
    and "getitem (h' ! img') j (k + 1) 0 = getitem (h ! img) j (k + 1) 0"
    and "getitem (h' ! img') (j + 1) k 0 = getitem (h ! img) (j + 1) k 0"
    and "getitem (h' ! img') (j + 1) (k + 1) 0 = getitem (h ! img) (j + 1) (k + 1) 0"
  shows "\<exists>t t'. outcome qnode img h = Inr t \<and> outcome qnode img' h' = Inr t' \<and>
           getitem t' (j div 2) (k div 2) c = getitem t (j div 2) (k div 2) c"
proof -
  let ?a = "h ! img" and ?b = "h' ! img'"
  from assms(9,10) have j: "j + 1 < 28" "2 * (j div 2) = j" "j div 2 < 14" by auto
  from assms(11,12) have k: "k + 1 < 28" "2 * (k div 2) = k" "k div 2 < 14" by auto
  have in_range: "j < H" "j + 1 < H" "k < W" "k + 1 < W"
    using j(1) k(1) assms(6,7) by simp_all
  have pv: "patch_vals ?b j k = patch_vals ?a j k"
    using assms(14-17) in_range assms(8)
    by (simp add: patch_vals_def getitem_shape [OF assms(3)] getitem_shape [OF assms(5)])
  have "getitem (feature_tensor qnode ?b) (j div 2) (k div 2) c =
        getitem (feature_tensor qnode ?a) (j div 2) (k div 2) c"
    by (simp add: getitem_feature_tensor [OF assms(1) j(3) k(3) assms(13)] j(2) k(2) pv)
  then show ?thesis
    using outcome_ok [OF assms(2,3,6,7,8,1)] outcome_ok [OF assms(4,5,6,7,8,1)] by simp
qed
text \<open>
  Witness of C5: the all-zero image and the image whose last row is all ones agree on
  the patch at (2, 4).
\<close>

theorem quanv_patch_independence_witness:
  "four_in_four_out (circuit sample_draws [[0, 0, 0, 0]]) \<and>
   (0::nat) < length [np_zeros 28 28 1 :: real ndarray] \<and>
   has_shape ([np_zeros 28 28 1 :: real ndarray] ! 0) 28 28 1 \<and>
   (0::nat) < length [(np_zeros 28 28 1)[27 := replicate 28 [1]] :: real ndarray] \<and>
   has_shape ([(np_zeros 28 28 1)[27 := replicate 28 [1]] :: real ndarray] ! 0) 28 28 1 \<and>
   (28::nat) \<le> 28 \<and> (0::nat) < 1 \<and>
   even (2::nat) \<and> (2::nat) < 28 \<and> even (4::nat) \<and> (4::nat) < 28 \<and> (3::nat) < 4 \<and>
   getitem ([(np_zeros 28 28 1)[27 := replicate 28 [1]] :: real ndarray] ! 0) 2 4 0 =
     getitem ([np_zeros 28 28 1] ! 0) 2 4 0 \<and>
   getitem ([(np_zeros 28 28 1)[27 := replicate 28 [1]] :: real ndarray] ! 0) 2 (4 + 1) 0 =
     getitem ([np_zeros 28 28 1] ! 0) 2 (4 + 1) 0 \<and>
   getitem ([(np_zeros 28 28 1)[27 := replicate 28 [1]] :: real ndarray] ! 0) (2 + 1) 4 0 =
     getitem ([np_zeros 28 28 1] ! 0) (2 + 1) 4 0 \<and>
   getitem ([(np_zeros 28 28 1)[27 := replicate 28 [1]] :: real ndarray] ! 0) (2 + 1) (4 + 1) 0 =
     getitem ([np_zeros 28 28 1] ! 0) (2 + 1) (4 + 1) 0 \<and>
   (\<exists>t t'. outcome (circuit sample_draws [[0, 0, 0, 0]]) 0 [np_zeros 28 28 1] = Inr t \<and>
      outcome (circuit sample_draws [[0, 0, 0, 0]]) 0 [(np_zeros 28 28 1)[27 := replicate 28 [1]]] =
        Inr t' \<and>
      getitem t' (2 div 2) (4 div 2) 3 = getitem t (2 div 2) (4 div 2) 3)"
proof -
  let ?h = "[np_zeros 28 28 1 :: real ndarray]"
  let ?h' = "[(np_zeros 28 28 1)[27 := replicate 28 [1]] :: real ndarray]"
  have 1: "four_in_four_out (circuit sample_draws [[0, 0, 0, 0]])" by (rule circuit_four)
  have 2: "(0::nat) < length ?h" by simp
  have 3: "has_shape (?h ! 0) 28 28 1" by (simp add: has_shape_np_zeros)
  have 4: "(0::nat) < length ?h'" by simp
  have 5: "has_shape (?h' ! 0) 28 28 1"
    by (simp add: has_shape_row_update [OF has_shape_np_zeros])
  have 6: "(28::nat) \<le> 28" "(28::nat) \<le> 28" "(0::nat) < 1" by simp_all
  have 7: "even (2::nat)" "(2::nat) < 28" "even (4::nat)" "(4::nat) < 28" "(3::nat) < 4"
    by simp_all
  have 8: "getitem (?h' ! 0) 2 4 0 = getitem (?h ! 0) 2 4 0"
    "getitem (?h' ! 0) 2 (4 + 1) 0 = getitem (?h ! 0) 2 (4 + 1) 0"
    "getitem (?h' ! 0) (2 + 1) 4 0 = getitem (?h ! 0) (2 + 1) 4 0"
    "getitem (?h' ! 0) (2 + 1) (4 + 1) 0 = getitem (?h ! 0) (2 + 1) (4 + 1) 0"
    by (simp_all add: getitem_def np_zeros_def)
  from quanv_patch_independence [OF 1 2 3 4 5 6 7 8] 1 2 3 4 5 6 7 8 show ?thesis by blast
qed
text \<open>
  C7. After a call of \<^verbatim>\<open>quanv\<close>, whether it returned or raised, the store is the
  store before the call with one new array appended: the image, like every other
  array that existed, holds what it held.
\<close>

theorem quanv_leaves_image_unchanged:
  assumes "img < length h"
  shows "snd (quanv qnode img h) ! img = h ! img \<and> (\<exists>t. snd (quanv qnode img h) = h @ [t])"
proof -
  let ?h1 = "snd (quanv qnode img h)"
  have "quanv qnode img h = (fst (quanv qnode img h), ?h1)" by simp
  from quanv_frame [OF this]
  have f: "length ?h1 = length h + 1" "\<And>p. p < length h \<Longrightarrow> ?h1 ! p = h ! p" by simp_all
  have "?h1 = h @ [?h1 ! length h]"
    by (rule nth_equalityI) (auto simp: f nth_append less_Suc_eq)
  with f(2) [OF assms] show ?thesis by blast
qed
text \<open>Witness of C7: a store that holds the all-zero 28x28x1 image.\<close>

theorem quanv_leaves_image_unchanged_witness:
  "(0::nat) < length [np_zeros 28 28 1 :: real ndarray] \<and>
   snd (quanv (circuit sample_draws [[0, 0, 0, 0]]) 0 [np_zeros 28 28 1]) ! 0 =
     [np_zeros 28 28 1] ! 0 \<and>
   (\<exists>t. snd (quanv (circuit sample_draws [[0, 0, 0, 0]]) 0 [np_zeros 28 28 1]) =
          [np_zeros 28 28 1] @ [t])"
proof -
  have 1: "(0::nat) < length [np_zeros 28 28 1 :: real ndarray]" by simp
  from quanv_leaves_image_unchanged [OF 1, of "circuit sample_draws [[0, 0, 0, 0]]"] 1
  show ?thesis by blast
qed
text \<open>
  C8, as amended. \<^verbatim>\<open>quanv\<close> checks nothing of its input. An image with fewer than
  28 rows or 28 columns, or with no channel, makes a pixel read raise IndexError;
  every other image is accepted, odd sizes and further channels included, and
  convolved as the specification's tensor of its top-left 28x28 pixels, channel 0.
\<close>

theorem quanv_no_validation:
  fixes qnode :: "'a::zero qnode"
  assumes "four_in_four_out qnode" "img < length h" "has_shape (h ! img) H W C"
  shows "outcome qnode img h =
           (if H < 28 \<or> W < 28 \<or> C = 0 then Inl IndexError
            else Inr (feature_tensor qnode (h ! img)))"
proof (cases "H < 28 \<or> W < 28 \<or> C = 0")
  case True
  with outcome_fail [OF assms(2,3) True assms(1)] show ?thesis by simp
next
  case False
  then have "28 \<le> H" "28 \<le> W" "0 < C" by simp_all
  from outcome_ok [OF assms(2,3) this assms(1)] False show ?thesis by simp
qed
text \<open>Witness of C8: an image of shape (27, 28, 1) raises IndexError.\<close>

theorem quanv_no_validation_witness:
  "four_in_four_out (circuit sample_draws [[0, 0, 0, 0]]) \<and>
   (0::nat) < length [np_zeros 27 28 1 :: real ndarray] \<and>
   has_shape ([np_zeros 27 28 1 :: real ndarray] ! 0) 27 28 1 \<and>
   outcome (circuit sample_draws [[0, 0, 0, 0]]) 0 [np_zeros 27 28 1] = Inl IndexError"
proof -
  let ?h = "[np_zeros 27 28 1 :: real ndarray]"
  have 1: "four_in_four_out (circuit sample_draws [[0, 0, 0, 0]])" by (rule circuit_four)
  have 2: "(0::nat) < length ?h" by simp
  have 3: "has_shape (?h ! 0) 27 28 1" by (simp add: has_shape_np_zeros)
  from quanv_no_validation [OF 1 2 3] 1 2 3 show ?thesis by simp
qed
text \<open>
  Counterexample to C8 as stated: an image of odd size (29, 29, 1) and an image with
  three channels (28, 28, 3) are accepted; each call returns the reference of its
  new tensor.
\<close>

theorem quanv_no_validation_counterexample:
  "fst (quanv (circuit sample_draws [[0, 0, 0, 0]]) 0 [np_zeros 29 29 1]) = Inr 1 \<and>
   fst (quanv (circuit sample_draws [[0, 0, 0, 0]]) 0 [np_zeros 28 28 3]) = Inr 1"
proof -
  let ?h = "[np_zeros 29 29 1 :: real ndarray]"
  let ?h' = "[np_zeros 28 28 3 :: real ndarray]"
  have 1: "four_in_four_out (circuit sample_draws [[0, 0, 0, 0]])" by (rule circuit_four)
  have "has_shape (?h ! 0) 29 29 1" by (simp add: has_shape_np_zeros)
  from quanv_ok [OF _ this _ _ _ 1] have a: "fst (quanv (circuit sample_draws [[0, 0, 0, 0]]) 0 ?h) = Inr 1"
    by simp
  have "has_shape (?h' ! 0) 28 28 3" by (simp add: has_shape_np_zeros)
  from quanv_ok [OF _ this _ _ _ 1] have b: "fst (quanv (circuit sample_draws [[0, 0, 0, 0]]) 0 ?h') = Inr 1"
    by simp
  from a b show ?thesis by simp
qed
text \<open>
  C9, as amended. With \<^verbatim>\<open>PREPROCESS = False\<close>, when one of the two cache files is
  missing the script stops at \<^verbatim>\<open>np.load\<close> with the FileNotFoundError of the missing
  file ("No such file or directory" and the file's name); no tensor is produced and no
  file is written.
\<close>

theorem missing_cache_raises:
  assumes "fs (SAVE_PATH @ ''q_train_images.npy'') = None \<or>
           fs (SAVE_PATH @ ''q_test_images.npy'') = None"
  shows "\<exists>file. preprocessing False qnode train_images test_images h fs =
             (Inl (FileNotFoundError ''No such file or directory'' file), fs) \<and>
           fs file = None \<and>
           (file = SAVE_PATH @ ''q_train_images.npy'' \<or> file = SAVE_PATH @ ''q_test_images.npy'')"
proof (cases "fs (SAVE_PATH @ ''q_train_images.npy'')")
  case None
  then show ?thesis by (simp add: preprocessing_def np_load_def)
next
  case (Some q_train)
  with assms have "fs (SAVE_PATH @ ''q_test_images.npy'') = None" by simp
  with Some show ?thesis by (simp add: preprocessing_def np_load_def)
qed
text \<open>Witness of C9: no file exists.\<close>

theorem missing_cache_raises_witness:
  "((Map.empty :: real files) (SAVE_PATH @ ''q_train_images.npy'') = None \<or>
    (Map.empty :: real files) (SAVE_PATH @ ''q_test_images.npy'') = None) \<and>
   (\<exists>file. preprocessing False (circuit sample_draws [[0, 0, 0, 0]]) [] [] [] Map.empty =
             (Inl (FileNotFoundError ''No such file or directory'' file), Map.empty) \<and>
           (Map.empty :: real files) file = None \<and>
           (file = SAVE_PATH @ ''q_train_images.npy'' \<or> file = SAVE_PATH @ ''q_test_images.npy''))"
proof -
  have 1: "(Map.empty :: real files) (SAVE_PATH @ ''q_train_images.npy'') = None \<or>
    (Map.empty :: real files) (SAVE_PATH @ ''q_test_images.npy'') = None" by simp
  from missing_cache_raises [OF 1, of "circuit sample_draws [[0, 0, 0, 0]]" "[]" "[]" "[]"] 1
  show ?thesis by blast
qed
text \<open>
  Counterexample to C9 as stated: with no file at all the exception is the one of the
  missing train file, and neither of its two arguments mentions "preprocess": the
  script has no diagnostic of its own.
\<close>

theorem missing_cache_counterexample:
  "fst (preprocessing False (circuit sample_draws [[0, 0, 0, 0]]) [] [] [] Map.empty) =
     Inl (FileNotFoundError ''No such file or directory'' ''my_path/q_train_images.npy'') \<and>
   \<not> mentions ''preprocess'' ''No such file or directory'' \<and>
   \<not> mentions ''preprocess'' ''my_path/q_train_images.npy''"
  by (simp add: preprocessing_def np_load_def SAVE_PATH_def)
text \<open>
  C10. For an image with at least 28 rows and 28 columns (and a channel), \<^verbatim>\<open>quanv\<close>
  returns a tensor of shape (14, 14, 4), and it is the tensor \<^verbatim>\<open>quanv\<close> returns for
  the image cut down to its top-left 28x28 pixels, channel 0.
\<close>

theorem quanv_reads_top_left_28:
  fixes qnode :: "'a::zero qnode"
  assumes "four_in_four_out qnode"
    and "img < length h" "has_shape (h ! img) H W C" "28 \<le> H" "28 \<le> W" "0 < C"
  shows "\<exists>t. outcome qnode img h = Inr t \<and> has_shape t 14 14 4 \<and>
           outcome qnode 0 [top_left_28 (h ! img)] = Inr t"
proof -
  let ?a = "h ! img"
  have "feature_tensor qnode (top_left_28 ?a) = feature_tensor qnode ?a"
    by (rule feature_tensor_cong) (rule nth_top_left_28 [OF assms(3-6)])
  moreover have "outcome qnode 0 [top_left_28 ?a] = Inr (feature_tensor qnode (top_left_28 ?a))"
  proof -
    have "has_shape ([top_left_28 ?a] ! 0) 28 28 1"
      using has_shape_top_left_28 [OF assms(3-6)] by simp
    from outcome_ok [OF _ this _ _ _ assms(1)] show ?thesis by simp
  qed
  ultimately show ?thesis
    using outcome_ok [OF assms(2-6) assms(1)] has_shape_feature_tensor [OF assms(1), of ?a]
    by simp
qed
text \<open>
  Witness of C10: an image of shape (30, 31, 2) whose last row, beyond row 27, is all
  ones.
\<close>

theorem quanv_reads_top_left_28_witness:
  "four_in_four_out (circuit sample_draws [[0, 0, 0, 0]]) \<and>
   (0::nat) < length [(np_zeros 30 31 2)[29 := replicate 31 [1, 1]] :: real ndarray] \<and>
   has_shape ([(np_zeros 30 31 2)[29 := replicate 31 [1, 1]] :: real ndarray] ! 0) 30 31 2 \<and>
   (28::nat) \<le> 30 \<and> (28::nat) \<le> 31 \<and> (0::nat) < 2 \<and>
   (\<exists>t. outcome (circuit sample_draws [[0, 0, 0, 0]]) 0
          [(np_zeros 30 31 2)[29 := replicate 31 [1, 1]]] = Inr t \<and>
      has_shape t 14 14 4 \<and>
      outcome (circuit sample_draws [[0, 0, 0, 0]]) 0
          [top_left_28 ([(np_zeros 30 31 2)[29 := replicate 31 [1, 1]]] ! 0)] = Inr t)"
proof -
  let ?h = "[(np_zeros 30 31 2)[29 := replicate 31 [1, 1]] :: real ndarray]"
  have 1: "four_in_four_out (circuit sample_draws [[0, 0, 0, 0]])" by (rule circuit_four)
  have 2: "(0::nat) < length ?h" by simp
  have 3: "has_shape (?h ! 0) 30 31 2"
    by (simp add: has_shape_row_update [OF has_shape_np_zeros])
  have 4: "(28::nat) \<le> 30" "(28::nat) \<le> 31" "(0::nat) < 2" by simp_all
  from quanv_reads_top_left_28 [OF 1 2 3 4] 1 2 3 4 show ?thesis by blast
qed

end
